theory Spec2Isabelle
  imports Main "HOL-Library.Word"
begin

section \<open>The two-phase append protocol of a vsb block\<close>

text \<open>
  A shallow embedding of \<^verbatim>\<open>internal/store/vsb/block_append.go\<close>: the append context,
  \<^verbatim>\<open>NewAppendContext\<close>, \<^verbatim>\<open>PrepareAppend\<close>, \<^verbatim>\<open>PrepareArchive\<close>, \<^verbatim>\<open>CommitAppend\<close> and its
  helpers \<^verbatim>\<open>trimFragments\<close>, \<^verbatim>\<open>checkFragments\<close> and \<^verbatim>\<open>buildIndexes\<close>.

  Conventions of the embedding.
  \<^item> The \<^verbatim>\<open>int64\<close> sequence numbers and offsets are values of \<open>int\<close>, and an addition
    or subtraction that the source does on \<^verbatim>\<open>int64\<close> or on \<^verbatim>\<open>int\<close> (taken 64 bits wide) is
    written with its wrap-around, \<open>i64 (a + b)\<close>; the conversion \<^verbatim>\<open>int32(n)\<close> is written out
    likewise. The length of a slice is a \<open>nat\<close>. Two differences that \<^verbatim>\<open>CommitAppend\<close> uses
    as slice bounds are written without \<open>i64\<close>: where the code evaluates them, after the
    trim and the contiguity check, they lie between \<open>0\<close> and the length of the buffer.
  \<^item> A Go \<^verbatim>\<open>error\<close> result is a value of the type \<open>error\<close>; a run-time panic (a slice
    bound out of range, a nil dereference) is the value \<open>Panic\<close>.
  \<^item> Tracing spans and log calls have no effect on the results and are left out. The
    \<^verbatim>\<open>context.Context\<close> argument is kept, since the source hands it on to them.
  \<^item> The entry codec, the fragment type, the entry accessors and the index constructor are
    code of the repository that this development does not embed. The codec is a parameter (a record
    of functions stored in the block, as \<^verbatim>\<open>b.enc\<close> and \<^verbatim>\<open>b.dec\<close> are); the other three are
    modelled from the specification and marked so.
\<close>

subsection \<open>Data model\<close>

type_synonym byte = "8 word"

datatype error = ErrInternal | errCorruptedFragment | ErrIO | Panic

text \<open>
  The value of a 64-bit signed expression of the source: the result of the arithmetic on the
  integers, wrapped around into the range from \<open>- 2 ^ 63\<close> to \<open>2 ^ 63 - 1\<close>.
\<close>

definition i64 :: "int \<Rightarrow> int" where
  "i64 x = signed_take_bit 63 x"

text \<open>
  \<^verbatim>\<open>context.Context\<close>: of a context only whether its cancellation has fired can matter
  to the code (\<^verbatim>\<open>ctx.Err() != nil\<close>).
\<close>

record Context =
  ctx_cancelled :: bool

datatype entry_type = CloudEvent | End | Reserved

text \<open>
  Modelled from the spec: the type \<^verbatim>\<open>block.Entry\<close> and its accessors
  \<^verbatim>\<open>ceschema.SequenceNumber\<close> and \<^verbatim>\<open>ceschema.EntryType\<close> are missing. An entry is "a record
  carrying a sequence number, an entry type tag, a timestamp (milliseconds since epoch), a set
  of attributes and a payload byte string".
\<close>

record entry =
  etype :: entry_type
  eseq :: int
  stime :: int
  attrs :: "(string \<times> string) list"
  body :: "byte list"

definition SequenceNumber :: "entry \<Rightarrow> int" where
  "SequenceNumber e = eseq e"

definition EntryType :: "entry \<Rightarrow> entry_type" where
  "EntryType e = etype e"

text \<open>
  Modelled from the spec: \<^verbatim>\<open>wrapEntry\<close> is missing. Prepare "stamps each [entry] with the
  current wall-clock millisecond timestamp and type" and assigns its sequence number.
\<close>

definition wrapEntry :: "entry \<Rightarrow> entry_type \<Rightarrow> int \<Rightarrow> int \<Rightarrow> entry" where
  "wrapEntry e t s now = e\<lparr>etype := t, eseq := s, stime := now\<rparr>"

text \<open>
  The codec is a parameter. \<^verbatim>\<open>Unmarshal\<close> and \<^verbatim>\<open>UnmarshalLast\<close> return the number of bytes
  consumed, the entry and an error; the source discards the error at each of its calls
  (\<^verbatim>\<open>n, entry, _ := b.dec.Unmarshal(data[off:])\<close>), so the parameter gives the first two results.
\<close>

record decoder =
  Unmarshal :: "byte list \<Rightarrow> int \<times> entry"
  UnmarshalLast :: "byte list \<Rightarrow> int \<times> entry"

record encoder =
  enc_Size :: "entry \<Rightarrow> nat"
  MarshalTo :: "entry \<Rightarrow> byte list"

text \<open>
  Modelled from the spec: the implementation of \<^verbatim>\<open>block.Fragment\<close> and \<^verbatim>\<open>newFragment\<close> are
  missing. A fragment is the "immutable tuple {startOffset: i64, payload: bytes}" with
  "endOffset = startOffset + len(payload)". \<^verbatim>\<open>newFragment\<close> "allocates one buffer sized by
  summing codec.size, marshals each entry back-to-back, and records startOffset": each entry
  is marshalled into its own slot of \<open>enc_Size\<close> bytes of a zeroed buffer.
\<close>

record fragment =
  so :: int
  payload :: "byte list"

definition StartOffset :: "fragment \<Rightarrow> int" where
  "StartOffset frag = so frag"

definition Payload :: "fragment \<Rightarrow> byte list" where
  "Payload frag = payload frag"

definition Size :: "fragment \<Rightarrow> nat" where
  "Size frag = length (payload frag)"

definition EndOffset :: "fragment \<Rightarrow> int" where
  "EndOffset frag = so frag + int (length (payload frag))"

definition marshal_slot :: "encoder \<Rightarrow> entry \<Rightarrow> byte list" where
  "marshal_slot enc e =
     take (enc_Size enc e) (MarshalTo enc e @ replicate (enc_Size enc e) 0)"

definition newFragment :: "int \<Rightarrow> entry list \<Rightarrow> encoder \<Rightarrow> fragment" where
  "newFragment start ents enc =
     \<lparr>so = start, payload = concat (map (marshal_slot enc) ents)\<rparr>"

text \<open>The append context of the source, field by field.\<close>

record appendContext =
  seq :: int
  offset :: int
  archived :: nat

definition actx_size :: "appendContext \<Rightarrow> int \<Rightarrow> int" where
  "actx_size c dataOffset = i64 (offset c - dataOffset)"

definition WriteOffset :: "appendContext \<Rightarrow> int" where
  "WriteOffset c = offset c"

definition Archived :: "appendContext \<Rightarrow> bool" where
  "Archived c = (archived c \<noteq> 0)"

text \<open>
  Modelled from the spec: \<^verbatim>\<open>index.NewIndex\<close> and \<^verbatim>\<open>index.WithEntry\<close> are missing. An index
  record is "{offset: i64, length: i32, seq: i64, extractedAttrs}", one per committed
  non-terminal entry. The length is the source's \<^verbatim>\<open>int32(n)\<close>.
\<close>

record index =
  idx_offset :: int
  idx_length :: int
  idx_seq :: int
  idx_attrs :: "(string \<times> string) list"

definition NewIndex :: "int \<Rightarrow> int \<Rightarrow> entry \<Rightarrow> index" where
  "NewIndex off n e =
     \<lparr>idx_offset = off, idx_length = signed_take_bit 31 n,
      idx_seq = SequenceNumber e, idx_attrs = attrs e\<rparr>"

text \<open>
  The block: the fields of \<^verbatim>\<open>vsBlock\<close> that the append protocol reads or writes. The field
  \<^verbatim>\<open>f\<close> is the file; of the file the model keeps its content.
\<close>

record vsBlock =
  dataOffset :: int
  capacity :: int
  actx :: appendContext
  indexes :: "index list"
  fcontent :: "byte list"
  enc :: encoder
  dec :: decoder

subsection \<open>trimFragments and checkFragments\<close>

function trimFragments_loop :: "int \<Rightarrow> fragment list \<Rightarrow> nat \<Rightarrow> error + fragment list" where
  "trimFragments_loop off frags i =
     (if i < length frags then
        (let frag = frags ! i in
         if EndOffset frag \<le> off then trimFragments_loop off frags (i + 1)
         else if StartOffset frag > off then Inl ErrInternal
         else if i \<noteq> 0 then Inr (drop i frags)
         else Inr frags)
      else Inr [])"
  by pat_completeness auto
termination
  by (relation "measure (\<lambda>(off, frags, i). length frags - i)") auto

declare trimFragments_loop.simps [simp del]

definition trimFragments :: "Context \<Rightarrow> vsBlock \<Rightarrow> fragment list \<Rightarrow> error + fragment list" where
  "trimFragments ctx b frags = trimFragments_loop (offset (actx b)) frags 0"

function checkFragments_loop :: "fragment list \<Rightarrow> nat \<Rightarrow> error option" where
  "checkFragments_loop frags i =
     (if i < length frags then
        (let prevEo = EndOffset (frags ! (i - 1));
             nextSo = StartOffset (frags ! i)
         in if prevEo \<noteq> nextSo then Some ErrInternal
            else checkFragments_loop frags (i + 1))
      else None)"
  by pat_completeness auto
termination
  by (relation "measure (\<lambda>(frags, i). length frags - i)") auto

declare checkFragments_loop.simps [simp del]

definition checkFragments :: "Context \<Rightarrow> vsBlock \<Rightarrow> fragment list \<Rightarrow> error option" where
  "checkFragments ctx b frags = checkFragments_loop frags 1"

subsection \<open>Slices and the file\<close>

text \<open>
  The slice expression \<^verbatim>\<open>xs[i:]\<close> panics unless \<open>0 \<le> i \<le> len(xs)\<close>. The built-in
  \<^verbatim>\<open>copy(data[k:], src)\<close> overwrites \<open>data\<close> from position \<open>k\<close> with as many elements
  of \<open>src\<close> as fit.
\<close>

definition slice_from :: "'a list \<Rightarrow> int \<Rightarrow> 'a list option" where
  "slice_from xs i =
     (if 0 \<le> i \<and> i \<le> int (length xs) then Some (drop (nat i) xs) else None)"

definition copy_into :: "'a list \<Rightarrow> nat \<Rightarrow> 'a list \<Rightarrow> 'a list" where
  "copy_into data k src =
     (let n = min (length data - k) (length src)
      in take k data @ take n src @ drop (k + n) data)"

text \<open>
  \<^verbatim>\<open>b.f.WriteAt(p, off)\<close>, after the contract of \<^verbatim>\<open>io.WriterAt\<close>: it returns the number of
  bytes written and an error, and the error is non-nil whenever fewer than \<open>len(p)\<close> bytes
  were written. Whether the write succeeds is decided by the environment: the outcome is an
  argument of the model. A failed write may have written a prefix of \<open>p\<close>. A write of no
  byte leaves the file as it is. A write at a negative offset, or one that would end beyond
  the largest file offset \<open>2 ^ 63 - 1\<close>, is refused and writes nothing.
\<close>

datatype write_outcome = WriteOK | WriteFail nat

definition write_bytes :: "byte list \<Rightarrow> byte list \<Rightarrow> nat \<Rightarrow> byte list" where
  "write_bytes old p k =
     (if p = [] then old
      else take k (old @ replicate (k - length old) 0) @ p @ drop (k + length p) old)"

definition WriteAt ::
  "write_outcome \<Rightarrow> byte list \<Rightarrow> byte list \<Rightarrow> int \<Rightarrow> nat \<times> error option \<times> byte list" where
  "WriteAt io old p off =
     (if off < 0 \<or> 2 ^ 63 - 1 < off + int (length p) then (0, Some ErrIO, old)
      else case io of
        WriteOK \<Rightarrow> (length p, None, write_bytes old p (nat off))
      | WriteFail k \<Rightarrow>
          (min k (length p), Some ErrIO, write_bytes old (take (min k (length p)) p) (nat off)))"

subsection \<open>buildIndexes\<close>

text \<open>
  The scan loop of \<^verbatim>\<open>buildIndexes\<close>. The \<^verbatim>\<open>for\<close> statement has no post statement: \<open>off\<close>
  advances only at the end of the body, so the \<^verbatim>\<open>continue\<close> of the second case of the
  \<^verbatim>\<open>switch\<close> starts the next iteration with \<open>off\<close>, \<open>expected\<close> and \<open>indexes\<close> as they
  were. The loop may therefore not return, and the value \<open>None\<close> stands for that. On
  normal exit the loop gives \<open>indexes\<close>, \<open>expected\<close> and \<open>archived\<close>.
\<close>

partial_function (option) buildIndexes_loop ::
  "decoder \<Rightarrow> int \<Rightarrow> byte list \<Rightarrow> int \<Rightarrow> int \<Rightarrow> index list
     \<Rightarrow> (error + index list \<times> int \<times> bool) option" where
  "buildIndexes_loop d base data off expected idxs =
     (if off < int (length data) then
        (case slice_from data off of
           None \<Rightarrow> Some (Inl Panic)
         | Some rest \<Rightarrow>
            (let n = fst (Unmarshal d rest); e = snd (Unmarshal d rest) in
             if SequenceNumber e = expected then
               (if EntryType e = End then
                  (if i64 (off + n) \<noteq> int (length data) then Some (Inl errCorruptedFragment)
                   else Some (Inr (idxs, i64 (expected + 1), True)))
                else buildIndexes_loop d base data (i64 (off + n)) (i64 (expected + 1))
                       (idxs @ [NewIndex (i64 (base + off)) n e]))
             else if SequenceNumber e < expected \<and> length idxs = 0 then
               buildIndexes_loop d base data off expected idxs
             else Some (Inl errCorruptedFragment)))
      else Some (Inr (idxs, expected, False)))"

declare buildIndexes_loop.simps [code]

definition buildIndexes ::
  "Context \<Rightarrow> vsBlock \<Rightarrow> int \<Rightarrow> byte list \<Rightarrow> (error + index list \<times> int \<times> bool) option" where
  "buildIndexes ctx b base data =
     (case buildIndexes_loop (dec b) base data 0 (seq (actx b)) [] of
        None \<Rightarrow> None
      | Some (Inl err) \<Rightarrow> Some (Inl err)
      | Some (Inr (idxs, expected, arch)) \<Rightarrow>
          Some (Inr (idxs, i64 (expected - seq (actx b)), arch)))"

subsection \<open>CommitAppend\<close>

fun copy_frags :: "int \<Rightarrow> fragment list \<Rightarrow> byte list \<Rightarrow> error + byte list" where
  "copy_frags base [] data = Inr data"
| "copy_frags base (frag # frags) data =
     (case slice_from data (StartOffset frag - base) of
        None \<Rightarrow> Inl Panic
      | Some _ \<Rightarrow>
          copy_frags base frags (copy_into data (nat (StartOffset frag - base)) (Payload frag)))"

definition commit :: "vsBlock \<Rightarrow> byte list \<Rightarrow> index list \<Rightarrow> int \<Rightarrow> nat \<Rightarrow> bool \<Rightarrow> vsBlock" where
  "commit b written idxs entryCount entrySize arch =
     b\<lparr>fcontent := written,
       indexes := indexes b @ idxs,
       actx := (actx b)\<lparr>seq := i64 (seq (actx b) + entryCount),
                        offset := i64 (offset (actx b) + int entrySize),
                        archived := (if arch then 1 else archived (actx b))\<rparr>\<rparr>"

text \<open>
  \<^verbatim>\<open>CommitAppend\<close> returns its result together with the block as the call leaves it;
  \<open>None\<close> means that the call does not return. The work started when the block becomes
  archived (the snapshot, the background task that appends the index entry and persists the
  header, the listener call) runs beside the caller and is outside the embedding.
\<close>

definition CommitAppend ::
  "Context \<Rightarrow> write_outcome \<Rightarrow> vsBlock \<Rightarrow> fragment list \<Rightarrow> ((error + bool) \<times> vsBlock) option" where
  "CommitAppend ctx io b frags0 =
     (case trimFragments ctx b frags0 of
        Inl err \<Rightarrow> Some (Inl err, b)
      | Inr frags \<Rightarrow>
          if length frags = 0 then Some (Inr False, b)
          else (case checkFragments ctx b frags of
            Some err \<Rightarrow> Some (Inl err, b)
          | None \<Rightarrow>
             (let sz = sum_list (map Size frags);
                  base = StartOffset (frags ! 0)
              in case copy_frags base frags (replicate sz 0) of
                Inl err \<Rightarrow> Some (Inl err, b)
              | Inr data \<Rightarrow>
                 (case buildIndexes ctx b base data of
                    None \<Rightarrow> None
                  | Some (Inl err) \<Rightarrow> Some (Inl err, b)
                  | Some (Inr (idxs, entryCount, arch)) \<Rightarrow>
                      if \<not> arch \<and> length idxs = 0 then Some (Inr False, b)
                      else (case slice_from data (offset (actx b) - base) of
                        None \<Rightarrow> Some (Inl Panic, b)
                      | Some p \<Rightarrow>
                         (case WriteAt io (fcontent b) p (offset (actx b)) of
                            (entrySize, Some err, written) \<Rightarrow>
                              Some (Inl err, b\<lparr>fcontent := written\<rparr>)
                          | (entrySize, None, written) \<Rightarrow>
                              Some (Inr arch, commit b written idxs entryCount entrySize arch)))))))"

subsection \<open>Detached append contexts\<close>

text \<open>
  An append context is handed around as a pointer (\<^verbatim>\<open>*appendContext\<close>). The canonical
  context is the field \<^verbatim>\<open>b.actx\<close>, embedded in the block by value; every other context is
  an object of its own on the heap. The memory of the model holds the block and the heap
  cells; a pointer names the field of the block or a cell. Dereferencing a pointer to no
  cell (a nil pointer, the result of the failed type assertion of the source) panics.
\<close>

record memory =
  blk :: vsBlock
  cells :: "appendContext list"

datatype actx_ptr = BlockActx | Cell nat

fun load :: "memory \<Rightarrow> actx_ptr \<Rightarrow> appendContext option" where
  "load m BlockActx = Some (actx (blk m))"
| "load m (Cell i) = (if i < length (cells m) then Some (cells m ! i) else None)"

fun store :: "memory \<Rightarrow> actx_ptr \<Rightarrow> appendContext \<Rightarrow> memory" where
  "store m BlockActx c = m\<lparr>blk := (blk m)\<lparr>actx := c\<rparr>\<rparr>"
| "store m (Cell i) c = m\<lparr>cells := (cells m)[i := c]\<rparr>"

definition alloc :: "memory \<Rightarrow> appendContext \<Rightarrow> actx_ptr \<times> memory" where
  "alloc m c = (Cell (length (cells m)), m\<lparr>cells := cells m @ [c]\<rparr>)"

definition NewAppendContext :: "memory \<Rightarrow> fragment option \<Rightarrow> actx_ptr \<times> memory" where
  "NewAppendContext m lastFrag =
     (case lastFrag of
        Some l \<Rightarrow>
          (let e = snd (UnmarshalLast (dec (blk m)) (Payload l));
               s = SequenceNumber e;
               c = \<lparr>seq = i64 (s + 1), offset = EndOffset l, archived = 0\<rparr>
           in alloc m (if EntryType e = End then c\<lparr>archived := 1\<rparr> else c))
      | None \<Rightarrow> alloc m (actx (blk m)))"

text \<open>
  \<^verbatim>\<open>PrepareAppend\<close>; \<open>now\<close> is the reading of the clock. The result is the triple of the
  sequence numbers, the fragment and the flag \<open>full\<close>; the error of the source is always nil.
\<close>

definition PrepareAppend ::
  "Context \<Rightarrow> int \<Rightarrow> memory \<Rightarrow> actx_ptr \<Rightarrow> entry list
     \<Rightarrow> (error + int list \<times> fragment \<times> bool) \<times> memory" where
  "PrepareAppend ctx now m p entries =
     (case load m p of
        None \<Rightarrow> (Inl Panic, m)
      | Some c \<Rightarrow>
          (let num = length entries;
               ents = map (\<lambda>i. wrapEntry (entries ! i) CloudEvent (i64 (seq c + int i)) now)
                        [0..<num];
               seqs = map (\<lambda>i. i64 (seq c + int i)) [0..<num];
               frag = newFragment (offset c) ents (enc (blk m));
               c1 = c\<lparr>offset := i64 (offset c + int (Size frag))\<rparr>;
               c2 = c1\<lparr>seq := i64 (seq c1 + int num)\<rparr>;
               m' = store m p c2
           in (Inr (seqs, frag, actx_size c2 (dataOffset (blk m')) \<ge> capacity (blk m')), m')))"

definition empty_entry :: entry where
  "empty_entry = \<lparr>etype = Reserved, eseq = 0, stime = 0, attrs = [], body = []\<rparr>"

definition PrepareArchive ::
  "Context \<Rightarrow> int \<Rightarrow> memory \<Rightarrow> actx_ptr \<Rightarrow> (error + fragment) \<times> memory" where
  "PrepareArchive ctx now m p =
     (case load m p of
        None \<Rightarrow> (Inl Panic, m)
      | Some c \<Rightarrow>
          (let end_entry = wrapEntry empty_entry End (seq c) now;
               frag = newFragment (offset c) [end_entry] (enc (blk m));
               c1 = c\<lparr>offset := i64 (offset c + int (Size frag))\<rparr>;
               c2 = c1\<lparr>seq := i64 (seq c1 + 1)\<rparr>;
               c3 = c2\<lparr>archived := 1\<rparr>
           in (Inr frag, store m p c3)))"

subsection \<open>Auxiliary notions for the proofs\<close>

text \<open>
  Adjacent fragments meet: each fragment ends where the next one starts. This is the
  property that \<^verbatim>\<open>checkFragments\<close> tests.
\<close>

fun contiguous :: "fragment list \<Rightarrow> bool" where
  "contiguous [] = True"
| "contiguous [f] = True"
| "contiguous (f # g # fs) = (EndOffset f = StartOffset g \<and> contiguous (g # fs))"

text \<open>
  The scan is at an entry that the second case of the \<^verbatim>\<open>switch\<close> skips: no index has
  been built and the sequence number of the decoded entry is below the expected one.
\<close>

definition skips :: "decoder \<Rightarrow> byte list \<Rightarrow> int \<Rightarrow> int \<Rightarrow> index list \<Rightarrow> bool" where
  "skips d data off expected idxs \<longleftrightarrow>
     0 \<le> off \<and> off < int (length data) \<and> idxs = [] \<and>
     SequenceNumber (snd (Unmarshal d (drop (nat off) data))) < expected"

text \<open>
  The scan has come to the head of its loop with these values of \<open>off\<close>, \<open>expected\<close>
  and \<open>indexes\<close>: it starts at offset \<open>0\<close> with the sequence number of the canonical
  context and no index, and each entry it accepts that is not an \<open>End\<close> entry takes it on.
\<close>

inductive scans :: "decoder \<Rightarrow> int \<Rightarrow> byte list \<Rightarrow> int \<Rightarrow> int \<Rightarrow> int \<Rightarrow> index list \<Rightarrow> bool"
  for d :: decoder and base :: int and data :: "byte list" and seq0 :: int where
  scans_start: "scans d base data seq0 0 seq0 []"
| scans_accept:
    "scans d base data seq0 off expected idxs \<Longrightarrow>
     off < int (length data) \<Longrightarrow> slice_from data off = Some rest \<Longrightarrow>
     SequenceNumber (snd (Unmarshal d rest)) = expected \<Longrightarrow>
     EntryType (snd (Unmarshal d rest)) \<noteq> End \<Longrightarrow>
     scans d base data seq0 (i64 (off + fst (Unmarshal d rest))) (i64 (expected + 1))
       (idxs @ [NewIndex (i64 (base + off)) (fst (Unmarshal d rest)) (snd (Unmarshal d rest))])"

code_pred scans .

subsection \<open>A small codec and blocks for the examples\<close>

text \<open>
  An entry of the example codec takes two bytes, the type tag (\<open>1\<close> for \<open>End\<close>) and the
  sequence number.
\<close>

definition toy_entry :: "entry_type \<Rightarrow> int \<Rightarrow> entry" where
  "toy_entry t s = \<lparr>etype = t, eseq = s, stime = 0, attrs = [], body = []\<rparr>"

fun toy_Unmarshal :: "byte list \<Rightarrow> int \<times> entry" where
  "toy_Unmarshal (t # s # rest) = (2, toy_entry (if t = 1 then End else CloudEvent) (uint s))"
| "toy_Unmarshal rest = (0, empty_entry)"

definition toy_dec :: decoder where
  "toy_dec = \<lparr>Unmarshal = toy_Unmarshal,
              UnmarshalLast = (\<lambda>bs. toy_Unmarshal (drop (length bs - 2) bs))\<rparr>"

definition toy_enc :: encoder where
  "toy_enc = \<lparr>enc_Size = (\<lambda>e. 2),
              MarshalTo = (\<lambda>e. [if etype e = End then 1 else 0, word_of_int (eseq e)])\<rparr>"

definition live_ctx :: Context where
  "live_ctx = \<lparr>ctx_cancelled = False\<rparr>"

definition cancelled_ctx :: Context where
  "cancelled_ctx = \<lparr>ctx_cancelled = True\<rparr>"

text \<open>A fresh block, and the fragment of the entries with the sequence numbers 0 and 1.\<close>

definition block0 :: vsBlock where
  "block0 = \<lparr>dataOffset = 0, capacity = 6, actx = \<lparr>seq = 0, offset = 0, archived = 0\<rparr>,
             indexes = [], fcontent = [], enc = toy_enc, dec = toy_dec\<rparr>"

definition frag01 :: fragment where
  "frag01 = \<lparr>so = 0, payload = [0, 0, 0, 1]\<rparr>"

text \<open>The block after the commit of \<open>frag01\<close>.\<close>

definition block2 :: vsBlock where
  "block2 = block0\<lparr>fcontent := [0, 0, 0, 1],
                  indexes := [NewIndex 0 2 (toy_entry CloudEvent 0),
                              NewIndex 2 2 (toy_entry CloudEvent 1)],
                  actx := \<lparr>seq = 2, offset = 4, archived = 0\<rparr>\<rparr>"

text \<open>
  The block after the commit of the first entry alone: \<open>frag01\<close> begins below its
  canonical offset and ends above it.
\<close>

definition block1 :: vsBlock where
  "block1 = block0\<lparr>fcontent := [0, 0],
                  indexes := [NewIndex 0 2 (toy_entry CloudEvent 0)],
                  actx := \<lparr>seq = 1, offset = 2, archived = 0\<rparr>\<rparr>"

text \<open>
  A fragment that leaves a gap after \<open>frag01\<close>, the fragment of an \<open>End\<close> entry with the
  sequence number 2, one of an \<open>End\<close> entry with the sequence number 5, and one of an
  \<open>End\<close> entry followed by another entry.
\<close>

definition frag_gap :: fragment where
  "frag_gap = \<lparr>so = 6, payload = [0, 2]\<rparr>"

definition frag_end2 :: fragment where
  "frag_end2 = \<lparr>so = 4, payload = [1, 2]\<rparr>"

definition frag_end5 :: fragment where
  "frag_end5 = \<lparr>so = 0, payload = [1, 5]\<rparr>"

definition frag_end_mid :: fragment where
  "frag_end_mid = \<lparr>so = 4, payload = [1, 2, 0, 3]\<rparr>"

text \<open>The fragment of an entry with the sequence number 0 and an \<open>End\<close> entry after it.\<close>

definition frag_0_end :: fragment where
  "frag_0_end = \<lparr>so = 0, payload = [0, 0, 1, 1]\<rparr>"

text \<open>A memory without detached contexts, and one with a detached copy of the canonical one.\<close>

definition memory0 :: memory where
  "memory0 = \<lparr>blk = block0, cells = []\<rparr>"

text \<open>
  A block whose data begin at offset 64, with a detached copy of its canonical context, and
  a detached context at the largest sequence number.
\<close>

definition block64 :: vsBlock where
  "block64 = block0\<lparr>dataOffset := 64, actx := \<lparr>seq = 0, offset = 64, archived = 0\<rparr>\<rparr>"

definition memory64 :: memory where
  "memory64 = \<lparr>blk = block64, cells = [actx block64]\<rparr>"

definition memory_max :: memory where
  "memory_max = \<lparr>blk = block64,
                  cells = [\<lparr>seq = 9223372036854775807, offset = 64, archived = 0\<rparr>]\<rparr>"

text \<open>
  A memory whose block has a decoder that finds, as the last entry of any fragment, an entry
  with the largest sequence number.
\<close>

definition memory_last_max :: memory where
  "memory_last_max =
     \<lparr>blk = block0\<lparr>dec := \<lparr>Unmarshal = toy_Unmarshal,
                           UnmarshalLast =
                             (\<lambda>bs. (2, toy_entry CloudEvent 9223372036854775807))\<rparr>\<rparr>,
      cells = []\<rparr>"

section \<open>Properties\<close>

subsection \<open>The arithmetic of 64-bit integers\<close>

lemma i64_id: "- (2 ^ 63) \<le> x \<Longrightarrow> x < 2 ^ 63 \<Longrightarrow> i64 x = x"
  by (simp add: i64_def signed_take_bit_int_eq_self)

lemma i64_i64 [simp]: "i64 (i64 x) = i64 x"
  by (simp add: i64_def)

lemma i64_add_right: "i64 (a + i64 b) = i64 (a + b)"
  using signed_take_bit_add [of 63 a "signed_take_bit 63 b"] signed_take_bit_add [of 63 a b]
  by (simp add: i64_def)

lemma i64_add_diff: "i64 (a + i64 (i64 x - a)) = i64 x"
  by (simp add: i64_add_right)

subsection \<open>The trim and the contiguity check\<close>

lemma trimFragments_loop_Cons:
  "trimFragments_loop off (f # fs) (Suc i) = trimFragments_loop off fs i"
proof (induction off fs i rule: trimFragments_loop.induct)
  case (1 off frags i)
  show ?case
    using "1.IH"
    by (subst trimFragments_loop.simps, subst (2) trimFragments_loop.simps)
       (simp add: Let_def)
qed

lemma trimFragments_Nil: "trimFragments ctx b [] = Inr []"
  by (simp add: trimFragments_def trimFragments_loop.simps)

lemma trimFragments_Cons:
  "trimFragments ctx b (f # fs) =
     (if EndOffset f \<le> offset (actx b) then trimFragments ctx b fs
      else if StartOffset f > offset (actx b) then Inl ErrInternal
      else Inr (f # fs))"
  unfolding trimFragments_def
  by (subst trimFragments_loop.simps) (simp add: trimFragments_loop_Cons)

lemma trimFragments_all_discarded:
  "\<forall>f \<in> set frags. EndOffset f \<le> offset (actx b) \<Longrightarrow> trimFragments ctx b frags = Inr []"
  by (induction frags) (simp_all add: trimFragments_Nil trimFragments_Cons)

lemma trimFragments_kept:
  "trimFragments ctx b frags = Inr kept \<Longrightarrow>
     \<exists>pre. frags = pre @ kept \<and> (\<forall>f \<in> set pre. EndOffset f \<le> offset (actx b)) \<and>
       (kept \<noteq> [] \<longrightarrow> StartOffset (hd kept) \<le> offset (actx b) \<and> offset (actx b) < EndOffset (hd kept))"
proof (induction frags)
  case Nil
  then show ?case by (simp add: trimFragments_Nil)
next
  case (Cons f fs)
  show ?case
  proof (cases "EndOffset f \<le> offset (actx b)")
    case True
    with Cons.prems have "trimFragments ctx b fs = Inr kept"
      by (simp add: trimFragments_Cons)
    from Cons.IH [OF this] obtain pre where
      "fs = pre @ kept" "\<forall>f \<in> set pre. EndOffset f \<le> offset (actx b)"
      "kept \<noteq> [] \<longrightarrow> StartOffset (hd kept) \<le> offset (actx b) \<and> offset (actx b) < EndOffset (hd kept)"
      by blast
    with True show ?thesis
      by (intro exI [of _ "f # pre"]) simp
  next
    case False
    with Cons.prems have "kept = f # fs" "StartOffset f \<le> offset (actx b)"
      by (auto simp: trimFragments_Cons split: if_splits)
    with False show ?thesis
      by (intro exI [of _ "[]"]) simp
  qed
qed

lemma checkFragments_loop_Cons:
  "checkFragments_loop (f # fs) (Suc (Suc i)) = checkFragments_loop fs (Suc i)"
proof (induction fs "Suc i" arbitrary: i rule: checkFragments_loop.induct)
  case (1 frags)
  show ?case
    using "1.hyps"
    by (subst checkFragments_loop.simps, subst (2) checkFragments_loop.simps)
       (simp add: Let_def)
qed

lemma checkFragments_contiguous:
  "checkFragments ctx b frags = (if contiguous frags then None else Some ErrInternal)"
proof (induction frags rule: contiguous.induct)
  case 1
  show ?case by (simp add: checkFragments_def checkFragments_loop.simps)
next
  case (2 f)
  show ?case by (simp add: checkFragments_def checkFragments_loop.simps)
next
  case (3 f g fs)
  have "checkFragments_loop (f # g # fs) 1 =
          (if EndOffset f \<noteq> StartOffset g then Some ErrInternal
           else checkFragments_loop (g # fs) 1)"
    using checkFragments_loop_Cons [of f "g # fs" 0]
    by (subst checkFragments_loop.simps) (simp add: Let_def)
  with 3 show ?case by (simp add: checkFragments_def)
qed

lemma contiguous_nth:
  "contiguous frags \<longleftrightarrow>
     (\<forall>i. Suc i < length frags \<longrightarrow> EndOffset (frags ! i) = StartOffset (frags ! Suc i))"
proof (induction frags rule: contiguous.induct)
  case (3 f g fs)
  show ?case
  proof
    assume a: "contiguous (f # g # fs)"
    show "\<forall>i. Suc i < length (f # g # fs) \<longrightarrow>
            EndOffset ((f # g # fs) ! i) = StartOffset ((f # g # fs) ! Suc i)"
    proof (intro allI impI)
      fix i assume "Suc i < length (f # g # fs)"
      with a 3 show "EndOffset ((f # g # fs) ! i) = StartOffset ((f # g # fs) ! Suc i)"
        by (cases i) auto
    qed
  next
    assume a: "\<forall>i. Suc i < length (f # g # fs) \<longrightarrow>
            EndOffset ((f # g # fs) ! i) = StartOffset ((f # g # fs) ! Suc i)"
    from a [rule_format, of 0] have "EndOffset f = StartOffset g" by simp
    moreover have "contiguous (g # fs)"
      unfolding 3
    proof (intro allI impI)
      fix i assume "Suc i < length (g # fs)"
      with a [rule_format, of "Suc i"]
      show "EndOffset ((g # fs) ! i) = StartOffset ((g # fs) ! Suc i)" by simp
    qed
    ultimately show "contiguous (f # g # fs)" by simp
  qed
qed simp_all

subsection \<open>The scan, the coalescing copy and the write\<close>

lemma buildIndexes_loop_errors:
  assumes "buildIndexes_loop d base data off expected idxs = Some y"
  shows "\<forall>err. y = Inl err \<longrightarrow> err = errCorruptedFragment \<or> err = Panic"
proof (rule buildIndexes_loop.raw_induct
    [where P = "\<lambda>d base data off expected idxs y.
                  \<forall>err. y = Inl err \<longrightarrow> err = errCorruptedFragment \<or> err = Panic",
     OF _ assms], goal_cases)
  case (1 f d base data off expected idxs y)
  from 1(2) show ?case
    by (auto split: if_splits option.splits simp: Let_def dest: 1(1))
qed

lemma buildIndexes_loop_skips_aux:
  assumes "buildIndexes_loop d base data off expected idxs = Some y"
  shows "\<not> skips d data off expected idxs"
proof (rule buildIndexes_loop.raw_induct
    [where P = "\<lambda>d base data off expected idxs y. \<not> skips d data off expected idxs",
     OF _ assms], goal_cases)
  case (1 f d base data off expected idxs y)
  show ?case
  proof
    assume s: "skips d data off expected idxs"
    with 1(2) have "f d base data off expected idxs = Some y"
      by (simp add: skips_def slice_from_def Let_def)
    from 1(1) [OF this] s show False by simp
  qed
qed

lemma buildIndexes_loop_skips:
  "skips d data off expected idxs \<Longrightarrow> buildIndexes_loop d base data off expected idxs = None"
proof (cases "buildIndexes_loop d base data off expected idxs")
  case (Some y)
  assume "skips d data off expected idxs"
  with buildIndexes_loop_skips_aux [OF Some] show ?thesis by simp
qed simp

lemma copy_into_length [simp]: "length (copy_into data k src) = length data"
  by (simp add: copy_into_def Let_def)

lemma copy_frags_length:
  "copy_frags base frags data = Inr data' \<Longrightarrow> length data' = length data"
  by (induction frags arbitrary: data) (auto split: option.splits)

lemma copy_frags_errors:
  "copy_frags base frags data = Inl err \<Longrightarrow> err = Panic"
  by (induction frags arbitrary: data) (auto split: option.splits)

lemma WriteAt_cases:
  "WriteAt io old p off = (n, r, w) \<Longrightarrow>
     (r = None \<and> n = length p \<and> 0 \<le> off \<and> off + int (length p) < 2 ^ 63 \<and> io = WriteOK) \<or>
     r = Some ErrIO"
  by (auto simp: WriteAt_def split: if_splits write_outcome.splits)

lemma contiguous_EndOffset_le:
  "contiguous (f # fs) \<Longrightarrow> g \<in> set (f # fs) \<Longrightarrow>
     EndOffset g \<le> StartOffset f + int (sum_list (map Size (f # fs)))"
proof (induction fs arbitrary: f)
  case Nil
  then show ?case by (simp add: EndOffset_def StartOffset_def Size_def)
next
  case (Cons h fs)
  from Cons.prems have c: "EndOffset f = StartOffset h" "contiguous (h # fs)" by simp_all
  have f: "EndOffset f = StartOffset f + int (Size f)"
    by (simp add: EndOffset_def StartOffset_def Size_def)
  show ?case
  proof (cases "g = f")
    case True
    with f show ?thesis by simp
  next
    case False
    with Cons.prems have "g \<in> set (h # fs)" by simp
    from Cons.IH [OF c(2) this] c(1) f show ?thesis by simp
  qed
qed

lemma copy_frags_concat:
  "contiguous frags \<Longrightarrow> frags \<noteq> [] \<Longrightarrow> StartOffset (hd frags) - base = int (length pre) \<Longrightarrow>
     copy_frags base frags (pre @ replicate (sum_list (map Size frags)) 0) =
       Inr (pre @ concat (map Payload frags))"
proof (induction frags arbitrary: pre)
  case Nil
  then show ?case by simp
next
  case (Cons f fs)
  have step: "copy_into (pre @ replicate (sum_list (map Size (f # fs))) 0) (length pre) (Payload f) =
          (pre @ Payload f) @ replicate (sum_list (map Size fs)) 0"
    by (simp add: copy_into_def Size_def Payload_def)
  show ?case
  proof (cases fs)
    case Nil
    with Cons.prems step show ?thesis
      by (simp add: slice_from_def)
  next
    case (Cons g gs)
    with Cons.prems have c: "contiguous fs" "fs \<noteq> []" "EndOffset f = StartOffset (hd fs)"
      by simp_all
    from c(3) Cons.prems(3) have "StartOffset (hd fs) - base = int (length (pre @ Payload f))"
      by (simp add: EndOffset_def StartOffset_def Payload_def)
    from Cons.IH [OF c(1) c(2) this] Cons.prems(3) step show ?thesis
      by (simp add: slice_from_def)
  qed
qed

lemma CommitAppend_scan:
  assumes t: "trimFragments ctx b frags = Inr kept" and ne: "kept \<noteq> []" and c: "contiguous kept"
  shows "CommitAppend ctx io b frags =
     (case buildIndexes ctx b (StartOffset (hd kept)) (concat (map Payload kept)) of
        None \<Rightarrow> None
      | Some (Inl err) \<Rightarrow> Some (Inl err, b)
      | Some (Inr (idxs, entryCount, arch)) \<Rightarrow>
          if \<not> arch \<and> idxs = [] then Some (Inr False, b)
          else (case WriteAt io (fcontent b)
                       (drop (nat (offset (actx b) - StartOffset (hd kept))) (concat (map Payload kept)))
                       (offset (actx b)) of
                  (entrySize, Some err, written) \<Rightarrow> Some (Inl err, b\<lparr>fcontent := written\<rparr>)
                | (entrySize, None, written) \<Rightarrow>
                    Some (Inr arch, commit b written idxs entryCount entrySize arch)))"
proof -
  from trimFragments_kept [OF t] ne
  have h: "StartOffset (hd kept) \<le> offset (actx b)" "offset (actx b) < EndOffset (hd kept)"
    by auto
  have "hd kept \<in> set kept" using ne by simp
  with contiguous_EndOffset_le [of "hd kept" "tl kept" "hd kept"] c ne
  have "EndOffset (hd kept) \<le> StartOffset (hd kept) + int (sum_list (map Size kept))"
    by simp
  moreover have "length (concat (map Payload kept)) = sum_list (map Size kept)"
    by (induction kept) (simp_all add: Size_def Payload_def)
  ultimately have s: "slice_from (concat (map Payload kept)) (offset (actx b) - StartOffset (hd kept)) =
      Some (drop (nat (offset (actx b) - StartOffset (hd kept))) (concat (map Payload kept)))"
    using h by (simp add: slice_from_def)
  from copy_frags_concat [OF c ne, of "StartOffset (hd kept)" "[]"]
  have d: "copy_frags (StartOffset (hd kept)) kept (replicate (sum_list (map Size kept)) 0) =
      Inr (concat (map Payload kept))"
    by simp
  have k0: "kept ! 0 = hd kept" using ne by (simp add: hd_conv_nth)
  show ?thesis
    unfolding CommitAppend_def
    by (simp add: t ne c checkFragments_contiguous k0 d s Let_def
          split: option.splits sum.splits prod.splits)
qed

lemma CommitAppend_trim_empty:
  "trimFragments ctx b frags = Inr [] \<Longrightarrow> CommitAppend ctx io b frags = Some (Inr False, b)"
  by (simp add: CommitAppend_def)

lemma trimFragments_ctx: "trimFragments c1 b frags = trimFragments c2 b frags"
  by (simp add: trimFragments_def)

lemma buildIndexes_ctx: "buildIndexes c1 b base data = buildIndexes c2 b base data"
  by (simp add: buildIndexes_def)

lemma commit_offset:
  "offset (actx (commit b written idxs entryCount entrySize arch)) =
     i64 (offset (actx b) + int entrySize)"
  by (simp add: commit_def)

lemma buildIndexes_errors:
  "buildIndexes ctx b base data = Some (Inl err) \<Longrightarrow> err = errCorruptedFragment \<or> err = Panic"
  using buildIndexes_loop_errors [of "dec b" base data 0 "seq (actx b)" "[]"]
  by (auto simp: buildIndexes_def split: option.splits sum.splits)

lemma CommitAppend_not_contiguous:
  "trimFragments ctx b frags = Inr kept \<Longrightarrow> \<not> contiguous kept \<Longrightarrow>
     CommitAppend ctx io b frags = Some (Inl ErrInternal, b)"
  by (cases kept) (simp_all add: CommitAppend_def checkFragments_contiguous)

lemma CommitAppend_contiguous_no_ErrInternal:
  assumes t: "trimFragments ctx b frags = Inr kept" and c: "contiguous kept"
  shows "CommitAppend ctx io b frags \<noteq> Some (Inl ErrInternal, b')"
proof (cases "kept = []")
  case True
  with t show ?thesis by (simp add: CommitAppend_trim_empty)
next
  case False
  show ?thesis
    unfolding CommitAppend_scan [OF t False c]
    by (auto split: option.splits sum.splits prod.splits
             dest: buildIndexes_errors WriteAt_cases)
qed

lemma concat_Payload_length: "length (concat (map Payload kept)) = sum_list (map Size kept)"
  by (induction kept) (simp_all add: Size_def Payload_def)

lemma kept_data_nonempty:
  assumes t: "trimFragments ctx b frags = Inr kept" and ne: "kept \<noteq> []"
  shows "0 < length (concat (map Payload kept))"
proof -
  from trimFragments_kept [OF t] ne
  have "StartOffset (hd kept) < EndOffset (hd kept)" by auto
  then have "0 < Size (hd kept)"
    by (simp add: StartOffset_def EndOffset_def Size_def)
  with ne show ?thesis
    by (cases kept) (simp_all add: Size_def Payload_def)
qed

lemma CommitAppend_skip_never_returns:
  assumes t: "trimFragments ctx b frags = Inr kept" and ne: "kept \<noteq> []" and c: "contiguous kept"
    and s: "SequenceNumber (snd (Unmarshal (dec b) (concat (map Payload kept)))) < seq (actx b)"
  shows "CommitAppend ctx io b frags = None"
proof -
  from kept_data_nonempty [OF t ne] s
  have "skips (dec b) (concat (map Payload kept)) 0 (seq (actx b)) []"
    by (simp add: skips_def)
  then have "buildIndexes ctx b (StartOffset (hd kept)) (concat (map Payload kept)) = None"
    by (simp add: buildIndexes_def buildIndexes_loop_skips)
  then show ?thesis
    by (simp add: CommitAppend_scan [OF t ne c])
qed

lemma scans_loop:
  "scans d base data seq0 off expected idxs \<Longrightarrow>
     buildIndexes_loop d base data 0 seq0 [] = buildIndexes_loop d base data off expected idxs"
proof (induction rule: scans.induct)
  case scans_start
  show ?case by simp
next
  case (scans_accept off expected idxs rest)
  have "buildIndexes_loop d base data off expected idxs =
          buildIndexes_loop d base data (i64 (off + fst (Unmarshal d rest))) (i64 (expected + 1))
            (idxs @ [NewIndex (i64 (base + off)) (fst (Unmarshal d rest)) (snd (Unmarshal d rest))])"
    using scans_accept.hyps
    by (subst buildIndexes_loop.simps) (simp add: Let_def)
  with scans_accept.IH show ?case by simp
qed

lemma scan_at_End:
  assumes "off < int (length data)" "slice_from data off = Some rest"
    and "Unmarshal d rest = (n, e)" "EntryType e = End"
  shows "buildIndexes_loop d base data off expected idxs =
     (if SequenceNumber e = expected then
        (if i64 (off + n) \<noteq> int (length data) then Some (Inl errCorruptedFragment)
         else Some (Inr (idxs, i64 (expected + 1), True)))
      else if SequenceNumber e < expected \<and> idxs = [] then None
      else Some (Inl errCorruptedFragment))"
proof (cases "SequenceNumber e < expected \<and> idxs = []")
  case True
  with assms have "skips d data off expected idxs"
    by (auto simp: skips_def slice_from_def split: if_splits)
  with True show ?thesis by (simp add: buildIndexes_loop_skips)
next
  case False
  with assms show ?thesis
    by (subst buildIndexes_loop.simps) (auto simp: Let_def)
qed

subsection \<open>Fragments, sequence numbers and detached contexts\<close>

lemma marshal_slot_length: "length (marshal_slot en e) = enc_Size en e"
  by (simp add: marshal_slot_def)

lemma Size_newFragment:
  "Size (newFragment start ents en) = sum_list (map (enc_Size en) ents)"
  by (induction ents) (simp_all add: Size_def newFragment_def marshal_slot_length)

lemma map_upt_upto: "map (\<lambda>j. a + int j) [0..<n] = [a..a + int n - 1]"
proof (induction n)
  case 0
  show ?case by simp
next
  case (Suc n)
  have "[a..a + int (Suc n) - 1] = [a..a + int n - 1] @ [a + int n]"
    using upto_rec2 [of a "a + int n"] by simp
  with Suc show ?case by simp
qed

lemma load_alloc:
  "alloc m c = (p, m') \<Longrightarrow>
     load m' p = Some c \<and> blk m' = blk m \<and> p \<noteq> BlockActx \<and> load m p = None"
  by (auto simp: alloc_def)

lemma store_alloc: "alloc m c = (p, m') \<Longrightarrow> blk (store m' p c') = blk m"
  by (auto simp: alloc_def)

lemma PrepareAppend_blk:
  "p \<noteq> BlockActx \<Longrightarrow> blk (snd (PrepareAppend ctx now m p entries)) = blk m"
  by (cases p) (simp_all add: PrepareAppend_def Let_def split: option.splits)

lemma PrepareArchive_blk:
  "p \<noteq> BlockActx \<Longrightarrow> blk (snd (PrepareArchive ctx now m p)) = blk m"
  by (cases p) (simp_all add: PrepareArchive_def Let_def split: option.splits)

subsection \<open>Evaluation of the examples\<close>

lemmas accessor_defs =
  StartOffset_def EndOffset_def Size_def Payload_def SequenceNumber_def EntryType_def

lemmas example_defs =
  toy_dec_def toy_enc_def toy_entry_def live_ctx_def block0_def block1_def block2_def
  frag01_def frag_gap_def NewIndex_def

lemmas commit_defs =
  CommitAppend_def trimFragments_def trimFragments_loop.simps checkFragments_def
  checkFragments_loop.simps buildIndexes_def buildIndexes_loop.simps slice_from_def
  copy_into_def WriteAt_def write_bytes_def commit_def i64_def

section \<open>The claims\<close>

text \<open>
  C1. The trim phase walks the fragments from the front. With \<open>W\<close> the canonical offset,
  a fragment \<open>f\<close> with \<open>EndOffset f \<le> W\<close> is discarded and the walk goes on; otherwise, if
  \<open>StartOffset f > W\<close>, the trim fails with \<open>ErrInternal\<close>; otherwise \<open>f\<close> and all
  fragments after it are kept. A failed trim makes \<^verbatim>\<open>CommitAppend\<close> fail with the same
  error. If every fragment is discarded, \<^verbatim>\<open>CommitAppend\<close> returns \<open>(false, nil)\<close> and the
  block is as it was.
\<close>

theorem trimFragments_walk:
  "trimFragments ctx b [] = Inr [] \<and>
   trimFragments ctx b (f # fs) =
     (if EndOffset f \<le> offset (actx b) then trimFragments ctx b fs
      else if StartOffset f > offset (actx b) then Inl ErrInternal
      else Inr (f # fs)) \<and>
   (trimFragments ctx b frags = Inl ErrInternal \<longrightarrow>
      CommitAppend ctx io b frags = Some (Inl ErrInternal, b)) \<and>
   ((\<forall>g \<in> set frags. EndOffset g \<le> offset (actx b)) \<longrightarrow>
      trimFragments ctx b frags = Inr [] \<and> CommitAppend ctx io b frags = Some (Inr False, b))"
  using trimFragments_Cons [of ctx b f fs] trimFragments_all_discarded [of frags b ctx]
  by (simp add: trimFragments_Nil CommitAppend_trim_empty CommitAppend_def)

theorem trimFragments_walk_witness:
  "EndOffset frag01 \<le> offset (actx block2) \<and>
   trimFragments live_ctx block2 [frag01] = Inr [] \<and>
   CommitAppend live_ctx WriteOK block2 [frag01] = Some (Inr False, block2) \<and>
   trimFragments live_ctx block1 [frag01, frag_gap] = Inr [frag01, frag_gap] \<and>
   trimFragments live_ctx block2 [frag01, frag_gap] = Inl ErrInternal \<and>
   CommitAppend live_ctx WriteOK block2 [frag01, frag_gap] = Some (Inl ErrInternal, block2)"
proof -
  have h: "\<forall>g \<in> set [frag01]. EndOffset g \<le> offset (actx block2)"
    by (simp add: accessor_defs example_defs)
  have k: "\<not> EndOffset frag01 \<le> offset (actx block1)" "\<not> StartOffset frag01 > offset (actx block1)"
    "EndOffset frag01 \<le> offset (actx block2)"
    "\<not> EndOffset frag_gap \<le> offset (actx block2)" "StartOffset frag_gap > offset (actx block2)"
    by (simp_all add: accessor_defs example_defs)
  note discarded = trimFragments_walk [of live_ctx block2 frag01 "[]" "[frag01]" WriteOK]
  note kept = trimFragments_walk [of live_ctx block1 frag01 "[frag_gap]" "[]" WriteOK]
  note gap = trimFragments_walk [of live_ctx block2 frag_gap "[]" "[]" WriteOK]
  note both = trimFragments_walk [of live_ctx block2 frag01 "[frag_gap]" "[frag01, frag_gap]" WriteOK]
  from discarded [THEN conjunct2, THEN conjunct2, THEN conjunct2] h
  have 1: "trimFragments live_ctx block2 [frag01] = Inr [] \<and>
           CommitAppend live_ctx WriteOK block2 [frag01] = Some (Inr False, block2)"
    by blast
  from kept [THEN conjunct2, THEN conjunct1] k(1,2)
  have 2: "trimFragments live_ctx block1 [frag01, frag_gap] = Inr [frag01, frag_gap]"
    by simp
  from gap [THEN conjunct2, THEN conjunct1] k(4,5)
  have 3: "trimFragments live_ctx block2 [frag_gap] = Inl ErrInternal"
    by simp
  from both [THEN conjunct2, THEN conjunct1] k(3) 3
  have 4: "trimFragments live_ctx block2 [frag01, frag_gap] = Inl ErrInternal"
    by simp
  from both [THEN conjunct2, THEN conjunct2, THEN conjunct1] 4
  have 5: "CommitAppend live_ctx WriteOK block2 [frag01, frag_gap] = Some (Inl ErrInternal, block2)"
    by blast
  from k(3) 1 2 4 5 show ?thesis by blast
qed

text \<open>
  C2. Idempotence: if \<^verbatim>\<open>CommitAppend\<close> of a fragment list succeeds, a second
  \<^verbatim>\<open>CommitAppend\<close> of the same list, whatever the file would do, returns \<open>(false, nil)\<close> and
  leaves the block as the first commit left it: the canonical offset and sequence number
  and the index table are those after one commit.
\<close>

theorem CommitAppend_idempotent:
  assumes first: "CommitAppend ctx io b frags = Some (Inr r, b1)"
  shows "CommitAppend ctx' io' b1 frags = Some (Inr False, b1)"
proof -
  from first obtain kept where t: "trimFragments ctx b frags = Inr kept"
    by (cases "trimFragments ctx b frags") (auto simp: CommitAppend_def)
  show ?thesis
  proof (cases "kept = []")
    case True
    with t first have "b1 = b"
      by (simp add: CommitAppend_trim_empty)
    with t True show ?thesis
      using CommitAppend_trim_empty [of ctx' b frags io'] trimFragments_ctx [of ctx' b frags ctx]
      by simp
  next
    case False
    with t first have c: "contiguous kept"
      by (auto simp: CommitAppend_def checkFragments_contiguous split: if_splits)
    let ?base = "StartOffset (hd kept)"
    let ?data = "concat (map Payload kept)"
    let ?p = "drop (nat (offset (actx b) - ?base)) ?data"
    note scan = CommitAppend_scan [OF t False c]
    from first scan [of io] obtain idxs entryCount arch where
      bi: "buildIndexes ctx b ?base ?data = Some (Inr (idxs, entryCount, arch))"
      by (auto split: option.splits sum.splits)
    show ?thesis
    proof (cases "\<not> arch \<and> idxs = []")
      case True
      with first scan [of io] bi have "b1 = b" by simp
      moreover have "trimFragments ctx' b frags = Inr kept"
        using t trimFragments_ctx [of ctx' b frags ctx] by simp
      from CommitAppend_scan [OF this False c, of io'] bi True
      have "CommitAppend ctx' io' b frags = Some (Inr False, b)"
        by (simp add: buildIndexes_ctx [of ctx' b ?base ?data ctx])
      ultimately show ?thesis by simp
    next
      case False
      obtain n res written where
        w: "WriteAt io (fcontent b) ?p (offset (actx b)) = (n, res, written)"
        by (cases "WriteAt io (fcontent b) ?p (offset (actx b))") auto
      with first scan [of io] bi False have res: "res = None"
        and b1: "b1 = commit b written idxs entryCount n arch"
        by (auto split: option.splits)
      from WriteAt_cases [OF w] res have n: "n = length ?p"
        and fits: "0 \<le> offset (actx b)" "offset (actx b) + int (length ?p) < 2 ^ 63"
        by simp_all
      from fits have nowrap: "i64 (offset (actx b) + int (length ?p)) =
          offset (actx b) + int (length ?p)"
        by (intro i64_id) simp_all
      from trimFragments_kept [OF t] \<open>kept \<noteq> []\<close> obtain pre where
        pre: "frags = pre @ kept" "\<forall>f \<in> set pre. EndOffset f \<le> offset (actx b)"
        and hd: "?base \<le> offset (actx b)" "offset (actx b) < EndOffset (hd kept)"
        by auto
      have len: "length ?data = sum_list (map Size kept)"
        by (induction kept) (simp_all add: Size_def Payload_def)
      have inside: "\<And>g. g \<in> set kept \<Longrightarrow> EndOffset g \<le> ?base + int (sum_list (map Size kept))"
        using contiguous_EndOffset_le [of "hd kept" "tl kept"] c \<open>kept \<noteq> []\<close> by simp
      from inside [of "hd kept"] \<open>kept \<noteq> []\<close> hd
      have "offset (actx b) - ?base \<le> int (length ?data)"
        by (simp add: len)
      with hd n len nowrap have off1: "offset (actx b1) = ?base + int (sum_list (map Size kept))"
        by (simp add: b1 commit_offset)
      have "\<forall>f \<in> set frags. EndOffset f \<le> offset (actx b1)"
      proof
        fix f assume "f \<in> set frags"
        with pre(1) consider "f \<in> set pre" | "f \<in> set kept" by auto
        then show "EndOffset f \<le> offset (actx b1)"
        proof cases
          case 1
          with pre(2) have "EndOffset f \<le> offset (actx b)" by simp
          also from hd(2) inside [of "hd kept"] \<open>kept \<noteq> []\<close>
          have "offset (actx b) \<le> offset (actx b1)" by (simp add: off1)
          finally show ?thesis .
        next
          case 2
          with inside off1 show ?thesis by simp
        qed
      qed
      then have "trimFragments ctx' b1 frags = Inr []"
        by (rule trimFragments_all_discarded)
      then show ?thesis by (rule CommitAppend_trim_empty)
    qed
  qed
qed

theorem CommitAppend_idempotent_witness:
  "CommitAppend live_ctx WriteOK block0 [frag01] = Some (Inr False, block2) \<and>
   CommitAppend live_ctx WriteOK block2 [frag01] = Some (Inr False, block2)"
proof -
  have h: "CommitAppend live_ctx WriteOK block0 [frag01] = Some (Inr False, block2)"
    by (simp add: commit_defs accessor_defs example_defs)
  from h CommitAppend_idempotent [OF h, of live_ctx WriteOK] show ?thesis by simp
qed

text \<open>
  C3. The claim: where the coalesced buffer begins below the canonical offset, the scan skips
  each leading entry with a sequence number below the expected one, goes on to the remaining
  entries and commits the tail. In the source the \<^verbatim>\<open>continue\<close> of that case does not
  advance \<open>off\<close>: the scan decodes the same entry again, for ever. The block holds the
  entry 0; the fragment of the entries 0 and 1 is kept by the trim, its first entry is below
  the expected sequence number, and \<^verbatim>\<open>CommitAppend\<close> does not return.
\<close>

theorem CommitAppend_overlap_never_returns:
  "trimFragments live_ctx block1 [frag01] = Inr [frag01] \<and>
   StartOffset frag01 < offset (actx block1) \<and> offset (actx block1) < EndOffset frag01 \<and>
   SequenceNumber (snd (Unmarshal (dec block1) (Payload frag01))) < seq (actx block1) \<and>
   CommitAppend live_ctx WriteOK block1 [frag01] = None"
proof -
  have t: "trimFragments live_ctx block1 [frag01] = Inr [frag01]"
    by (simp add: commit_defs accessor_defs example_defs)
  have s: "SequenceNumber (snd (Unmarshal (dec block1) (concat (map Payload [frag01]))))
             < seq (actx block1)"
    by (simp add: accessor_defs example_defs)
  from CommitAppend_skip_never_returns [OF t _ _ s, of WriteOK] t s show ?thesis
    by (simp add: accessor_defs example_defs)
qed

text \<open>
  C4. Atomicity on error: whenever \<^verbatim>\<open>CommitAppend\<close> returns an error (from the trim, the
  contiguity check, the scan or the file write), the canonical append context and the index
  table of the block are as they were before the call. (After a failed write the file may
  hold bytes of the attempt.)
\<close>

theorem CommitAppend_error_atomic:
  "CommitAppend ctx io b frags = Some (Inl err, b') \<Longrightarrow>
     actx b' = actx b \<and> indexes b' = indexes b"
  unfolding CommitAppend_def Let_def
  by (auto split: sum.splits if_splits option.splits prod.splits)

theorem CommitAppend_error_atomic_witness:
  "CommitAppend live_ctx (WriteFail 1) block0 [frag01] =
     Some (Inl ErrIO, block0\<lparr>fcontent := [0]\<rparr>) \<and>
   actx (block0\<lparr>fcontent := [0]\<rparr>) = actx block0 \<and>
   indexes (block0\<lparr>fcontent := [0]\<rparr>) = indexes block0"
proof -
  have h: "CommitAppend live_ctx (WriteFail 1) block0 [frag01] =
             Some (Inl ErrIO, block0\<lparr>fcontent := [0]\<rparr>)"
    by (simp add: commit_defs accessor_defs example_defs)
  from h CommitAppend_error_atomic [OF h] show ?thesis by simp
qed

text \<open>
  C5. The claim: a call whose cancellation token has fired before the file write aborts with
  an error and changes nothing. The source never consults the token. With a cancelled
  context the commit of \<open>frag01\<close> to the fresh block returns without error, writes the file
  and advances the canonical context and the index table.
\<close>

theorem CommitAppend_cancelled_counterexample:
  "ctx_cancelled cancelled_ctx \<and>
   CommitAppend cancelled_ctx WriteOK block0 [frag01] = Some (Inr False, block2) \<and>
   actx block2 \<noteq> actx block0 \<and> indexes block2 \<noteq> indexes block0 \<and>
   fcontent block2 \<noteq> fcontent block0"
  by (simp add: commit_defs accessor_defs example_defs cancelled_ctx_def)

text \<open>
  C5, as amended. \<^verbatim>\<open>CommitAppend\<close> does not depend on the cancellation token: a call with
  a context whose cancellation has fired returns what the same call with a live context
  returns, and leaves the block in the same state.
\<close>

theorem CommitAppend_ignores_cancellation:
  "CommitAppend (ctx\<lparr>ctx_cancelled := True\<rparr>) io b frags =
   CommitAppend (ctx\<lparr>ctx_cancelled := False\<rparr>) io b frags"
  unfolding CommitAppend_def trimFragments_def checkFragments_def buildIndexes_def
  by (rule refl)

theorem CommitAppend_ignores_cancellation_witness:
  "CommitAppend (live_ctx\<lparr>ctx_cancelled := True\<rparr>) WriteOK block0 [frag01] =
     Some (Inr False, block2)"
  using CommitAppend_ignores_cancellation [of live_ctx WriteOK block0 "[frag01]"]
  by (simp add: commit_defs accessor_defs example_defs)

text \<open>
  C6. \<^verbatim>\<open>PrepareAppend\<close> on a detached context \<open>c\<close> (a heap cell) and \<open>n > 0\<close> entries
  returns the sequence numbers \<open>seq c, \<dots>, seq c + n - 1\<close> in order and a fragment that
  starts at \<open>offset c\<close> and whose size is the sum of the codec sizes of the wrapped entries;
  it advances the offset of the detached context by the size of the fragment and its
  sequence number by \<open>n\<close>; \<open>full\<close> is \<open>offset - dataOffset \<ge> capacity\<close> with the offset
  of the advanced context; there is no error and the block, with its canonical context, is
  as it was. The sums and the difference are those of \<^verbatim>\<open>int64\<close>; where nothing overflows
  they are the sums and the difference of the integers.
\<close>

theorem PrepareAppend_result:
  assumes l: "load m (Cell i) = Some c" and ne: "entries \<noteq> []"
  shows "\<exists>frag c' m'.
     PrepareAppend ctx now m (Cell i) entries =
       (Inr (map (\<lambda>j. i64 (seq c + int j)) [0..<length entries], frag,
             capacity (blk m) \<le> i64 (offset c' - dataOffset (blk m))), m') \<and>
     StartOffset frag = offset c \<and>
     Size frag = sum_list (map (\<lambda>j. enc_Size (enc (blk m))
                   (wrapEntry (entries ! j) CloudEvent (i64 (seq c + int j)) now))
                   [0..<length entries]) \<and>
     load m' (Cell i) = Some c' \<and>
     offset c' = i64 (offset c + int (Size frag)) \<and>
     seq c' = i64 (seq c + int (length entries)) \<and>
     archived c' = archived c \<and>
     blk m' = blk m \<and>
     (- (2 ^ 63) \<le> seq c \<and> seq c + int (length entries) < 2 ^ 63 \<longrightarrow>
        map (\<lambda>j. i64 (seq c + int j)) [0..<length entries] =
          [seq c..seq c + int (length entries) - 1] \<and>
        seq c' = seq c + int (length entries)) \<and>
     (- (2 ^ 63) \<le> offset c \<and> offset c + int (Size frag) < 2 ^ 63 \<longrightarrow>
        offset c' = offset c + int (Size frag)) \<and>
     (- (2 ^ 63) \<le> offset c' - dataOffset (blk m) \<and> offset c' - dataOffset (blk m) < 2 ^ 63 \<longrightarrow>
        i64 (offset c' - dataOffset (blk m)) = offset c' - dataOffset (blk m))"
proof -
  from l have i: "i < length (cells m)"
    by (simp split: if_splits)
  let ?n = "length entries"
  let ?seqs = "map (\<lambda>j. i64 (seq c + int j)) [0..<?n]"
  let ?ents = "map (\<lambda>j. wrapEntry (entries ! j) CloudEvent (i64 (seq c + int j)) now) [0..<?n]"
  let ?frag = "newFragment (offset c) ?ents (enc (blk m))"
  let ?c' = "c\<lparr>offset := i64 (offset c + int (Size ?frag)), seq := i64 (seq c + int ?n)\<rparr>"
  let ?m' = "store m (Cell i) ?c'"
  have call: "PrepareAppend ctx now m (Cell i) entries =
       (Inr (?seqs, ?frag, capacity (blk m) \<le> i64 (offset ?c' - dataOffset (blk m))), ?m')"
    using l by (simp add: PrepareAppend_def Let_def actx_size_def)
  have start: "StartOffset ?frag = offset c"
    by (simp add: StartOffset_def newFragment_def)
  have size: "Size ?frag = sum_list (map (\<lambda>j. enc_Size (enc (blk m))
                   (wrapEntry (entries ! j) CloudEvent (i64 (seq c + int j)) now)) [0..<?n])"
    by (simp add: Size_newFragment comp_def)
  have cell: "load ?m' (Cell i) = Some ?c'" "blk ?m' = blk m"
    using i by simp_all
  have plain_seq: "?seqs = [seq c..seq c + int ?n - 1] \<and> seq ?c' = seq c + int ?n"
    if r: "- (2 ^ 63) \<le> seq c" "seq c + int ?n < 2 ^ 63"
  proof -
    have "i64 (seq c + int j) = seq c + int j" if "j < ?n" for j
      using r that by (intro i64_id) simp_all
    then have "?seqs = map (\<lambda>j. seq c + int j) [0..<?n]"
      by simp
    moreover have "i64 (seq c + int ?n) = seq c + int ?n"
      using r by (intro i64_id) simp_all
    ultimately show ?thesis
      by (simp add: map_upt_upto)
  qed
  have plain_offset: "offset ?c' = offset c + int (Size ?frag)"
    if "- (2 ^ 63) \<le> offset c" "offset c + int (Size ?frag) < 2 ^ 63"
    using that by (simp add: i64_id)
  have plain_full: "i64 (offset ?c' - dataOffset (blk m)) = offset ?c' - dataOffset (blk m)"
    if "- (2 ^ 63) \<le> offset ?c' - dataOffset (blk m)" "offset ?c' - dataOffset (blk m) < 2 ^ 63"
    using that by (rule i64_id)
  show ?thesis
  proof (intro exI [of _ ?frag] exI [of _ ?c'] exI [of _ ?m'] conjI impI)
    show "PrepareAppend ctx now m (Cell i) entries =
       (Inr (?seqs, ?frag, capacity (blk m) \<le> i64 (offset ?c' - dataOffset (blk m))), ?m')"
      by (rule call)
  qed (use start size cell plain_seq plain_offset plain_full in simp_all)
qed

theorem PrepareAppend_result_witness:
  "load memory64 (Cell 0) = Some \<lparr>seq = 0, offset = 64, archived = 0\<rparr> \<and>
   (\<exists>frag c' m'.
      PrepareAppend live_ctx 1000 memory64 (Cell 0) [empty_entry] = (Inr ([0], frag, False), m') \<and>
      StartOffset frag = 64 \<and> Size frag = 2 \<and> load m' (Cell 0) = Some c' \<and>
      offset c' = 66 \<and> seq c' = 1 \<and> archived c' = 0 \<and> blk m' = block64) \<and>
   (\<exists>frag c' m'.
      PrepareAppend live_ctx 1000 memory64 (Cell 0) [empty_entry, empty_entry, empty_entry] =
        (Inr ([0, 1, 2], frag, True), m') \<and>
      StartOffset frag = 64 \<and> Size frag = 6 \<and> load m' (Cell 0) = Some c' \<and>
      offset c' = 70 \<and> seq c' = 3 \<and> archived c' = 0 \<and> blk m' = block64) \<and>
   load memory_max (Cell 0) = Some \<lparr>seq = 9223372036854775807, offset = 64, archived = 0\<rparr> \<and>
   (\<exists>frag c' m'.
      PrepareAppend live_ctx 1000 memory_max (Cell 0) [empty_entry, empty_entry] =
        (Inr ([9223372036854775807, - 9223372036854775808], frag, False), m') \<and>
      load m' (Cell 0) = Some c' \<and> seq c' = - 9223372036854775807)"
proof -
  have l: "load memory64 (Cell 0) = Some \<lparr>seq = 0, offset = 64, archived = 0\<rparr>"
    by (simp add: example_defs memory64_def block64_def)
  have lm: "load memory_max (Cell 0) = Some \<lparr>seq = 9223372036854775807, offset = 64, archived = 0\<rparr>"
    by (simp add: memory_max_def)
  have ne: "[empty_entry] \<noteq> []" "[empty_entry, empty_entry] \<noteq> []"
    "[empty_entry, empty_entry, empty_entry] \<noteq> []"
    by simp_all
  have u: "[0..<Suc 0] = [0]" "[0..<2] = [0, 1]" "[0..<3] = [0, 1, 2]"
    by (simp_all add: upt_rec)
  have v: "blk memory64 = block64" "blk memory_max = block64"
    "capacity block64 = 6" "dataOffset block64 = 64" "enc_Size (enc block64) = (\<lambda>e. 2)"
    by (simp_all add: example_defs memory64_def memory_max_def block64_def)
  have 1: "\<exists>frag c' m'.
      PrepareAppend live_ctx 1000 memory64 (Cell 0) [empty_entry] = (Inr ([0], frag, False), m') \<and>
      StartOffset frag = 64 \<and> Size frag = 2 \<and> load m' (Cell 0) = Some c' \<and>
      offset c' = 66 \<and> seq c' = 1 \<and> archived c' = 0 \<and> blk m' = block64"
    using PrepareAppend_result [OF l ne(1), of live_ctx 1000]
    apply (elim exE conjE)
    subgoal for frag c' m'
      by (intro exI [of _ frag] exI [of _ c'] exI [of _ m']) (simp add: u v i64_def)
    done
  have 2: "\<exists>frag c' m'.
      PrepareAppend live_ctx 1000 memory64 (Cell 0) [empty_entry, empty_entry, empty_entry] =
        (Inr ([0, 1, 2], frag, True), m') \<and>
      StartOffset frag = 64 \<and> Size frag = 6 \<and> load m' (Cell 0) = Some c' \<and>
      offset c' = 70 \<and> seq c' = 3 \<and> archived c' = 0 \<and> blk m' = block64"
    using PrepareAppend_result [OF l ne(3), of live_ctx 1000]
    apply (elim exE conjE)
    subgoal for frag c' m'
      by (intro exI [of _ frag] exI [of _ c'] exI [of _ m']) (simp add: u v i64_def)
    done
  have 3: "\<exists>frag c' m'.
      PrepareAppend live_ctx 1000 memory_max (Cell 0) [empty_entry, empty_entry] =
        (Inr ([9223372036854775807, - 9223372036854775808], frag, False), m') \<and>
      load m' (Cell 0) = Some c' \<and> seq c' = - 9223372036854775807"
    using PrepareAppend_result [OF lm ne(2), of live_ctx 1000]
    apply (elim exE conjE)
    subgoal for frag c' m'
      by (intro exI [of _ frag] exI [of _ c'] exI [of _ m']) (simp add: u v i64_def)
    done
  from l lm 1 2 3 show ?thesis by blast
qed

text \<open>
  C7. For the fragments kept by the trim, \<^verbatim>\<open>CommitAppend\<close> fails with \<open>ErrInternal\<close>
  exactly when some fragment does not end where the next one starts. The check does not
  look at the canonical context: the start of the first fragment is not compared with the
  canonical offset.
\<close>

theorem checkFragments_adjacent_pairs:
  assumes t: "trimFragments ctx b frags = Inr kept"
  shows "((\<exists>b'. CommitAppend ctx io b frags = Some (Inl ErrInternal, b')) \<longleftrightarrow>
            (\<exists>i. Suc i < length kept \<and> EndOffset (kept ! i) \<noteq> StartOffset (kept ! Suc i))) \<and>
         checkFragments ctx b kept =
           (if \<exists>i. Suc i < length kept \<and> EndOffset (kept ! i) \<noteq> StartOffset (kept ! Suc i)
            then Some ErrInternal else None) \<and>
         checkFragments ctx (b\<lparr>actx := a\<rparr>) kept = checkFragments ctx b kept"
proof -
  have n: "(\<exists>i. Suc i < length kept \<and> EndOffset (kept ! i) \<noteq> StartOffset (kept ! Suc i)) \<longleftrightarrow>
             \<not> contiguous kept"
    by (auto simp: contiguous_nth)
  have "(\<exists>b'. CommitAppend ctx io b frags = Some (Inl ErrInternal, b')) \<longleftrightarrow> \<not> contiguous kept"
    using CommitAppend_not_contiguous [OF t, of io]
      CommitAppend_contiguous_no_ErrInternal [OF t, of io]
    by auto
  moreover have "checkFragments ctx (b\<lparr>actx := a\<rparr>) kept = checkFragments ctx b kept"
    by (simp add: checkFragments_def)
  ultimately show ?thesis
    unfolding n by (simp add: checkFragments_contiguous)
qed

theorem checkFragments_adjacent_pairs_witness:
  "trimFragments live_ctx block0 [frag01, frag_gap] = Inr [frag01, frag_gap] \<and>
   EndOffset ([frag01, frag_gap] ! 0) \<noteq> StartOffset ([frag01, frag_gap] ! Suc 0) \<and>
   (\<exists>b'. CommitAppend live_ctx WriteOK block0 [frag01, frag_gap] = Some (Inl ErrInternal, b')) \<and>
   checkFragments live_ctx block0 [frag01, frag_gap] = Some ErrInternal \<and>
   checkFragments live_ctx (block0\<lparr>actx := actx block2\<rparr>) [frag01, frag_gap] = Some ErrInternal"
proof -
  have t: "trimFragments live_ctx block0 [frag01, frag_gap] = Inr [frag01, frag_gap]"
    by (simp add: commit_defs accessor_defs example_defs)
  have g: "EndOffset ([frag01, frag_gap] ! 0) \<noteq> StartOffset ([frag01, frag_gap] ! Suc 0)"
    by (simp add: accessor_defs example_defs)
  then have "\<exists>i. Suc i < length [frag01, frag_gap] \<and>
      EndOffset ([frag01, frag_gap] ! i) \<noteq> StartOffset ([frag01, frag_gap] ! Suc i)"
    by (intro exI [of _ 0]) simp
  with checkFragments_adjacent_pairs [OF t, of WriteOK "actx block2"] t g
  show ?thesis by simp
qed

text \<open>
  C8. The claim: if a decoded entry has the type \<open>End\<close> and ends the buffer, the scan
  stops and the block becomes archived. The test of the sequence number comes first: an
  \<open>End\<close> entry with a sequence number above the expected one is refused. A fresh block
  expects the sequence number 0; the fragment holds one \<open>End\<close> entry with the sequence
  number 5, which ends the buffer, and the commit fails with \<open>errCorruptedFragment\<close>.
\<close>

theorem End_with_unexpected_seq_counterexample:
  "trimFragments live_ctx block0 [frag_end5] = Inr [frag_end5] \<and>
   EntryType (snd (Unmarshal (dec block0) (Payload frag_end5))) = End \<and>
   fst (Unmarshal (dec block0) (Payload frag_end5)) = int (length (Payload frag_end5)) \<and>
   CommitAppend live_ctx WriteOK block0 [frag_end5] = Some (Inl errCorruptedFragment, block0) \<and>
   \<not> Archived (actx block0)"
  by (simp add: commit_defs accessor_defs example_defs frag_end5_def Archived_def)

text \<open>
  C8, as amended. Let the fragments kept by the trim pass the contiguity check; the buffer
  that \<^verbatim>\<open>CommitAppend\<close> coalesces is then the concatenation of their payloads. Let the scan
  of the buffer come to an entry of the type \<open>End\<close>, and let the entry not be one that the
  scan skips (one below the expected sequence number while no index has been built; that
  case is left out). If the entry does not end at the last byte of the buffer, the commit
  fails with \<open>errCorruptedFragment\<close> and the block is as it was. If its sequence number is not
  the expected one, the commit fails in the same way, wherever the entry ends. If the entry
  ends the buffer and its sequence number is the expected one, the scan stops with
  \<open>archived\<close> set and with the index records it had built before it came to the entry, none
  for the entry itself, and the commit, once the write has succeeded, returns \<open>true\<close>,
  appends those records to the index table and leaves the block archived, with the sequence
  number after that of the entry.
\<close>

theorem End_entry_placement:
  assumes t: "trimFragments ctx b frags = Inr kept" and ne: "kept \<noteq> []"
    and c: "checkFragments ctx b kept = None"
    and r: "scans (dec b) (StartOffset (hd kept)) (concat (map Payload kept)) (seq (actx b))
              off expected idxs"
    and o: "off < int (length (concat (map Payload kept)))"
    and s: "slice_from (concat (map Payload kept)) off = Some rest"
    and u: "Unmarshal (dec b) rest = (n, e)" and e: "EntryType e = End"
  shows "copy_frags (StartOffset (hd kept)) kept (replicate (sum_list (map Size kept)) 0) =
           Inr (concat (map Payload kept)) \<and>
         (i64 (off + n) \<noteq> int (length (concat (map Payload kept))) \<and>
            \<not> (SequenceNumber e < expected \<and> idxs = []) \<longrightarrow>
          CommitAppend ctx io b frags = Some (Inl errCorruptedFragment, b)) \<and>
         (SequenceNumber e \<noteq> expected \<and> \<not> (SequenceNumber e < expected \<and> idxs = []) \<longrightarrow>
          CommitAppend ctx io b frags = Some (Inl errCorruptedFragment, b)) \<and>
         (i64 (off + n) = int (length (concat (map Payload kept))) \<and> SequenceNumber e = expected \<longrightarrow>
          buildIndexes ctx b (StartOffset (hd kept)) (concat (map Payload kept)) =
            Some (Inr (idxs, i64 (i64 (SequenceNumber e + 1) - seq (actx b)), True)) \<and>
          (\<forall>k w. WriteAt io (fcontent b)
                    (drop (nat (offset (actx b) - StartOffset (hd kept)))
                       (concat (map Payload kept)))
                    (offset (actx b)) = (k, None, w) \<longrightarrow>
            (\<exists>b'. CommitAppend ctx io b frags = Some (Inr True, b') \<and>
                  Archived (actx b') \<and> indexes b' = indexes b @ idxs \<and>
                  seq (actx b') = i64 (SequenceNumber e + 1))))"
proof -
  let ?data = "concat (map Payload kept)"
  let ?base = "StartOffset (hd kept)"
  let ?p = "drop (nat (offset (actx b) - ?base)) ?data"
  from c have c': "contiguous kept"
    by (simp add: checkFragments_contiguous split: if_splits)
  note loop = scans_loop [OF r] scan_at_End [OF o s u e, of ?base expected idxs]
  note scan = CommitAppend_scan [OF t ne c']
  from copy_frags_concat [OF c' ne, of ?base "[]"]
  have 0: "copy_frags ?base kept (replicate (sum_list (map Size kept)) 0) = Inr ?data"
    by simp
  have corrupted: "CommitAppend ctx io b frags = Some (Inl errCorruptedFragment, b)"
    if "\<not> (SequenceNumber e < expected \<and> idxs = [])"
      "i64 (off + n) \<noteq> int (length ?data) \<or> SequenceNumber e \<noteq> expected"
  proof -
    from that loop have "buildIndexes ctx b ?base ?data = Some (Inl errCorruptedFragment)"
      by (auto simp: buildIndexes_def)
    then show ?thesis by (simp add: scan)
  qed
  have stops: "buildIndexes ctx b ?base ?data =
      Some (Inr (idxs, i64 (i64 (SequenceNumber e + 1) - seq (actx b)), True))"
    if "i64 (off + n) = int (length ?data)" "SequenceNumber e = expected"
    using that loop by (simp add: buildIndexes_def)
  have archives: "\<exists>b'. CommitAppend ctx io b frags = Some (Inr True, b') \<and>
             Archived (actx b') \<and> indexes b' = indexes b @ idxs \<and>
             seq (actx b') = i64 (SequenceNumber e + 1)"
    if "i64 (off + n) = int (length ?data)" "SequenceNumber e = expected"
      and w: "WriteAt io (fcontent b) ?p (offset (actx b)) = (k, None, w)" for k w
    using stops [OF that(1,2)] w
    by (simp add: scan commit_def Archived_def i64_add_diff)
  from 0 corrupted stops archives show ?thesis by blast
qed

theorem End_entry_placement_witness:
  "trimFragments live_ctx block0 [frag_0_end] = Inr [frag_0_end] \<and>
   scans (dec block0) 0 [0, 0, 1, 1] 0 2 1 [NewIndex 0 2 (toy_entry CloudEvent 0)] \<and>
   Unmarshal (dec block0) [1, 1] = (2, toy_entry End 1) \<and>
   buildIndexes live_ctx block0 0 [0, 0, 1, 1] =
     Some (Inr ([NewIndex 0 2 (toy_entry CloudEvent 0)], 2, True)) \<and>
   (\<exists>b'. CommitAppend live_ctx WriteOK block0 [frag_0_end] = Some (Inr True, b') \<and>
      Archived (actx b') \<and> indexes b' = [NewIndex 0 2 (toy_entry CloudEvent 0)] \<and>
      seq (actx b') = 2) \<and>
   trimFragments live_ctx block2 [frag_end_mid] = Inr [frag_end_mid] \<and>
   Unmarshal (dec block2) [1, 2, 0, 3] = (2, toy_entry End 2) \<and>
   CommitAppend live_ctx WriteOK block2 [frag_end_mid] = Some (Inl errCorruptedFragment, block2) \<and>
   trimFragments live_ctx block0 [frag_end5] = Inr [frag_end5] \<and>
   Unmarshal (dec block0) [1, 5] = (2, toy_entry End 5) \<and>
   CommitAppend live_ctx WriteOK block0 [frag_end5] = Some (Inl errCorruptedFragment, block0)"
proof -
  have t: "trimFragments live_ctx block0 [frag_0_end] = Inr [frag_0_end]"
    by (simp add: commit_defs accessor_defs example_defs frag_0_end_def frag_end_mid_def)
  have c: "checkFragments live_ctx block0 [frag_0_end] = None"
    by (simp add: commit_defs)
  have d: "concat (map Payload [frag_0_end]) = [0, 0, 1, 1]" "StartOffset (hd [frag_0_end]) = 0"
    "seq (actx block0) = 0" "indexes block0 = []" "offset (actx block0) = 0" "fcontent block0 = []"
    by (simp_all add: accessor_defs example_defs frag_0_end_def frag_end_mid_def)
  have "scans (dec block0) 0 [0, 0, 1, 1] 0 (i64 (0 + fst (Unmarshal (dec block0) [0, 0, 1, 1])))
          (i64 (0 + 1))
          ([] @ [NewIndex (i64 (0 + 0)) (fst (Unmarshal (dec block0) [0, 0, 1, 1]))
                   (snd (Unmarshal (dec block0) [0, 0, 1, 1]))])"
    by (rule scans_accept [OF scans_start])
       (simp_all add: slice_from_def accessor_defs example_defs)
  then have r: "scans (dec block0) 0 [0, 0, 1, 1] 0 2 1 [NewIndex 0 2 (toy_entry CloudEvent 0)]"
    by (simp add: example_defs i64_def)
  have s: "slice_from [0, 0, 1, 1 :: byte] 2 = Some [1, 1]"
    by (simp add: slice_from_def)
  have u: "Unmarshal (dec block0) [1, 1] = (2, toy_entry End 1)"
    by (simp add: example_defs)
  have e: "EntryType (toy_entry End 1) = End" "SequenceNumber (toy_entry End 1) = 1"
    by (simp_all add: accessor_defs example_defs)
  have w: "WriteAt WriteOK [] [0, 0, 1, 1] 0 = (4, None, [0, 0, 1, 1])"
    by (simp add: WriteAt_def write_bytes_def)
  have t': "trimFragments live_ctx block2 [frag_end_mid] = Inr [frag_end_mid]"
    by (simp add: commit_defs accessor_defs example_defs frag_0_end_def frag_end_mid_def)
  have c': "checkFragments live_ctx block2 [frag_end_mid] = None"
    by (simp add: commit_defs)
  have d': "concat (map Payload [frag_end_mid]) = [1, 2, 0, 3]" "StartOffset (hd [frag_end_mid]) = 4"
    "seq (actx block2) = 2"
    by (simp_all add: accessor_defs example_defs frag_0_end_def frag_end_mid_def)
  have s': "slice_from [1, 2, 0, 3 :: byte] 0 = Some [1, 2, 0, 3]"
    by (simp add: slice_from_def)
  have u': "Unmarshal (dec block2) [1, 2, 0, 3] = (2, toy_entry End 2)"
    by (simp add: example_defs)
  have e': "EntryType (toy_entry End 2) = End" "SequenceNumber (toy_entry End 2) = 2"
    by (simp_all add: accessor_defs example_defs)
  have t'': "trimFragments live_ctx block0 [frag_end5] = Inr [frag_end5]"
    by (simp add: commit_defs accessor_defs example_defs frag_end5_def)
  have c'': "checkFragments live_ctx block0 [frag_end5] = None"
    by (simp add: commit_defs)
  have d'': "concat (map Payload [frag_end5]) = [1, 5]" "StartOffset (hd [frag_end5]) = 0"
    by (simp_all add: accessor_defs frag_end5_def)
  have s'': "slice_from [1, 5 :: byte] 0 = Some [1, 5]"
    by (simp add: slice_from_def)
  have u'': "Unmarshal (dec block0) [1, 5] = (2, toy_entry End 5)"
    by (simp add: example_defs)
  have e'': "EntryType (toy_entry End 5) = End" "SequenceNumber (toy_entry End 5) = 5"
    by (simp_all add: accessor_defs example_defs)
  from End_entry_placement [of live_ctx block0 "[frag_0_end]" "[frag_0_end]" 2 1
      "[NewIndex 0 2 (toy_entry CloudEvent 0)]" "[1, 1]" 2 "toy_entry End 1" WriteOK]
    t c d r s u e w
  have a: "buildIndexes live_ctx block0 0 [0, 0, 1, 1] =
      Some (Inr ([NewIndex 0 2 (toy_entry CloudEvent 0)], 2, True)) \<and>
    (\<exists>b'. CommitAppend live_ctx WriteOK block0 [frag_0_end] = Some (Inr True, b') \<and>
      Archived (actx b') \<and> indexes b' = [NewIndex 0 2 (toy_entry CloudEvent 0)] \<and>
      seq (actx b') = 2)"
    by (simp add: i64_def)
  from End_entry_placement [of live_ctx block2 "[frag_end_mid]" "[frag_end_mid]" 0 2
      "[]" "[1, 2, 0, 3]" 2 "toy_entry End 2" WriteOK]
    t' c' d' s' u' e' scans_start [of "dec block2" 4 "[1, 2, 0, 3]" 2]
  have b: "CommitAppend live_ctx WriteOK block2 [frag_end_mid] =
      Some (Inl errCorruptedFragment, block2)"
    by (simp add: i64_def)
  from End_entry_placement [of live_ctx block0 "[frag_end5]" "[frag_end5]" 0 0
      "[]" "[1, 5]" 2 "toy_entry End 5" WriteOK]
    t'' c'' d'' d(3) s'' u'' e'' scans_start [of "dec block0" 0 "[1, 5]" 0]
  have b': "CommitAppend live_ctx WriteOK block0 [frag_end5] =
      Some (Inl errCorruptedFragment, block0)"
    by simp
  from t r u a t' u' b t'' u'' b' show ?thesis by simp
qed

text \<open>
  C9. \<^verbatim>\<open>NewAppendContext\<close> with a last fragment returns a context whose sequence number is
  that of the last entry of the fragment plus one (the sum of \<^verbatim>\<open>int64\<close>: the sum of the
  integers unless the entry has the largest sequence number), whose offset is the end offset
  of the fragment and which is archived exactly when that entry has the type \<open>End\<close>.
  Without a fragment it returns a copy of the canonical context in a new cell of its own:
  no store through the returned pointer, and neither \<^verbatim>\<open>PrepareAppend\<close> nor
  \<^verbatim>\<open>PrepareArchive\<close> on it, changes the block and its canonical context.
\<close>

theorem NewAppendContext_result:
  "(case NewAppendContext m (Some lf) of
      (p, m') \<Rightarrow>
        (\<exists>c. load m' p = Some c \<and>
           seq c = i64 (SequenceNumber (snd (UnmarshalLast (dec (blk m)) (Payload lf))) + 1) \<and>
           (- (2 ^ 63) \<le> SequenceNumber (snd (UnmarshalLast (dec (blk m)) (Payload lf))) \<and>
            SequenceNumber (snd (UnmarshalLast (dec (blk m)) (Payload lf))) < 2 ^ 63 - 1 \<longrightarrow>
              seq c = SequenceNumber (snd (UnmarshalLast (dec (blk m)) (Payload lf))) + 1) \<and>
           offset c = EndOffset lf \<and>
           (Archived c \<longleftrightarrow> EntryType (snd (UnmarshalLast (dec (blk m)) (Payload lf))) = End)) \<and>
        blk m' = blk m) \<and>
   (case NewAppendContext m None of
      (p, m') \<Rightarrow>
        load m' p = Some (actx (blk m)) \<and> blk m' = blk m \<and> p \<noteq> BlockActx \<and>
        load m p = None \<and>
        (\<forall>c'. blk (store m' p c') = blk m \<and>
              load (store m' p c') BlockActx = Some (actx (blk m))) \<and>
        (\<forall>ctx now entries.
           blk (snd (PrepareAppend ctx now m' p entries)) = blk m \<and>
           blk (snd (PrepareArchive ctx now m' p)) = blk m))"
proof -
  let ?s = "SequenceNumber (snd (UnmarshalLast (dec (blk m)) (Payload lf)))"
  obtain p m' where a: "NewAppendContext m (Some lf) = (p, m')"
    by (cases "NewAppendContext m (Some lf)") auto
  obtain q n' where b: "NewAppendContext m None = (q, n')"
    by (cases "NewAppendContext m None") auto
  have plain: "i64 (?s + 1) = ?s + 1" if "- (2 ^ 63) \<le> ?s" "?s < 2 ^ 63 - 1"
    using that by (intro i64_id) simp_all
  from a have 1: "\<exists>c. load m' p = Some c \<and> seq c = i64 (?s + 1) \<and>
           offset c = EndOffset lf \<and>
           (Archived c \<longleftrightarrow> EntryType (snd (UnmarshalLast (dec (blk m)) (Payload lf))) = End)"
    "blk m' = blk m"
    by (auto simp: NewAppendContext_def Let_def alloc_def Archived_def)
  from b have al: "alloc m (actx (blk m)) = (q, n')"
    by (simp add: NewAppendContext_def)
  from load_alloc [OF al] have 2: "load n' q = Some (actx (blk m))" "blk n' = blk m"
    "q \<noteq> BlockActx" "load m q = None"
    by simp_all
  from store_alloc [OF al] have 3: "\<And>c'. blk (store n' q c') = blk m"
    by simp
  then have 4: "\<And>c'. load (store n' q c') BlockActx = Some (actx (blk m))"
    by simp
  from 2 have 5: "\<And>ctx now entries. blk (snd (PrepareAppend ctx now n' q entries)) = blk m"
     "\<And>ctx now. blk (snd (PrepareArchive ctx now n' q)) = blk m"
    by (simp_all add: PrepareAppend_blk PrepareArchive_blk)
  from 1(1) plain have 6: "\<exists>c. load m' p = Some c \<and> seq c = i64 (?s + 1) \<and>
           (- (2 ^ 63) \<le> ?s \<and> ?s < 2 ^ 63 - 1 \<longrightarrow> seq c = ?s + 1) \<and>
           offset c = EndOffset lf \<and>
           (Archived c \<longleftrightarrow> EntryType (snd (UnmarshalLast (dec (blk m)) (Payload lf))) = End)"
    by auto
  from 6 1(2) 2 3 4 5 show ?thesis
    by (simp add: a b)
qed

theorem NewAppendContext_result_witness:
  "NewAppendContext memory0 (Some frag_end2) =
     (Cell 0, memory0\<lparr>cells := [\<lparr>seq = 3, offset = 6, archived = 1\<rparr>]\<rparr>) \<and>
   NewAppendContext memory0 None = (Cell 0, memory0\<lparr>cells := [actx block0]\<rparr>) \<and>
   blk (store (memory0\<lparr>cells := [actx block0]\<rparr>) (Cell 0) (actx block2)) = block0 \<and>
   NewAppendContext memory_last_max (Some frag01) =
     (Cell 0, memory_last_max
        \<lparr>cells := [\<lparr>seq = - 9223372036854775808, offset = 4, archived = 0\<rparr>]\<rparr>)"
  using NewAppendContext_result [of memory0 frag_end2]
    NewAppendContext_result [of memory_last_max frag01]
  by (simp add: NewAppendContext_def alloc_def Let_def accessor_defs example_defs memory0_def
        frag_end2_def memory_last_max_def i64_def)

text \<open>
  C10. \<^verbatim>\<open>CommitAppend\<close> with an empty fragment list returns \<open>(false, nil)\<close> and leaves the
  block, with its canonical append context and its index table, as it was.
\<close>

theorem CommitAppend_empty: "CommitAppend ctx io b [] = Some (Inr False, b)"
  by (simp add: CommitAppend_trim_empty trimFragments_Nil)

theorem CommitAppend_empty_witness:
  "CommitAppend live_ctx WriteOK block2 [] = Some (Inr False, block2)"
  using CommitAppend_empty [of live_ctx WriteOK block2] by simp

end
